theory Spec2Isabelle
  imports Main "HOL-Library.Sublist"
begin

section \<open>Content inventory crawler: a shallow embedding of crawl\_content\_inventory.py\<close>

text \<open>
  A Python string is a sequence of Unicode code points, modelled as a list of integers
  (\<open>ord\<close> of each character); \<open>str\<close> turns a literal of the script into such a list. The
  substring test \<^verbatim>\<open>c in s\<close> is \<^const>\<open>sublist\<close>, \<^verbatim>\<open>s.startswith(p)\<close> is \<^const>\<open>prefix\<close> and
  \<^verbatim>\<open>s.endswith(p)\<close> is \<^const>\<open>suffix\<close>.
\<close>

subsection \<open>String primitives of the Python runtime\<close>

type_synonym ustring = "int list"

definition str :: "string \<Rightarrow> ustring" where
  "str s = map of_char s"

definition dquote :: int where
  "dquote = 34"

text \<open>
  The characters that \<^verbatim>\<open>str.split()\<close> and \<^verbatim>\<open>str.strip()\<close> without arguments take for
  whitespace (those for which \<^verbatim>\<open>str.isspace\<close> holds): U+0009 to U+000D, U+001C to U+0020,
  U+0085, U+00A0, U+1680, U+2000 to U+200A, U+2028, U+2029, U+202F, U+205F and U+3000.
\<close>

definition isspace :: "int \<Rightarrow> bool" where
  "isspace n =
     ((9 \<le> n \<and> n \<le> 13) \<or> (28 \<le> n \<and> n \<le> 32) \<or> n = 133 \<or> n = 160 \<or> n = 5760
      \<or> (8192 \<le> n \<and> n \<le> 8202) \<or> n = 8232 \<or> n = 8233 \<or> n = 8239 \<or> n = 8287
      \<or> n = 12288)"

text \<open>
  \<^verbatim>\<open>str.lower()\<close> is the lower-casing of the Unicode character database, a table of the
  runtime. Every function that calls it takes it as its first argument \<open>lower\<close>, and what
  is proved holds for any such function.
\<close>

text \<open>\<^verbatim>\<open>s.lstrip()\<close>, \<^verbatim>\<open>s.rstrip()\<close> and \<^verbatim>\<open>s.strip()\<close> without arguments.\<close>

definition lstrip :: "ustring \<Rightarrow> ustring" where
  "lstrip s = dropWhile isspace s"

definition rstrip :: "ustring \<Rightarrow> ustring" where
  "rstrip s = rev (dropWhile isspace (rev s))"

definition strip :: "ustring \<Rightarrow> ustring" where
  "strip s = rstrip (lstrip s)"

text \<open>\<^verbatim>\<open>s.rstrip("/")\<close>: drop every trailing occurrence of the given characters.\<close>

definition rstrip_chars :: "int list \<Rightarrow> ustring \<Rightarrow> ustring" where
  "rstrip_chars cs s = rev (dropWhile (\<lambda>c. c \<in> set cs) (rev s))"

text \<open>
  \<^verbatim>\<open>s.split()\<close> without arguments: the maximal runs of non-whitespace characters, in
  order. The first argument is the word being read.
\<close>

fun split_ws :: "ustring \<Rightarrow> ustring \<Rightarrow> ustring list" where
  "split_ws w [] = (if w = [] then [] else [w])"
| "split_ws w (c # cs) =
     (if isspace c then (if w = [] then split_ws [] cs else w # split_ws [] cs)
      else split_ws (w @ [c]) cs)"

definition str_split :: "ustring \<Rightarrow> ustring list" where
  "str_split s = split_ws [] s"

text \<open>\<^verbatim>\<open>sep.join(ws)\<close>.\<close>

fun join :: "ustring \<Rightarrow> ustring list \<Rightarrow> ustring" where
  "join sep [] = []"
| "join sep [w] = w"
| "join sep (w # v # ws) = w @ sep @ join sep (v # ws)"

text \<open>
  \<^verbatim>\<open>s[:-n]\<close> for a length \<open>n\<close>; Python reads \<^verbatim>\<open>s[:-0]\<close> as \<^verbatim>\<open>s[:0]\<close>, the empty
  string.
\<close>

definition slice_upto_neg :: "ustring \<Rightarrow> nat \<Rightarrow> ustring" where
  "slice_upto_neg s n = (if n = 0 then [] else take (length s - n) s)"

text \<open>
  \<^verbatim>\<open>s.replace(old, new)\<close>: every non-overlapping occurrence of \<open>old\<close>, scanning from
  the left. With an empty \<open>old\<close> Python puts \<open>new\<close> before every character and at the end.
\<close>

function replace_ne :: "ustring \<Rightarrow> ustring \<Rightarrow> ustring \<Rightarrow> ustring" where
  "replace_ne old new s =
     (if old = [] \<or> s = [] then s
      else if prefix old s then new @ replace_ne old new (drop (length old) s)
      else hd s # replace_ne old new (tl s))"
  by pat_completeness auto
termination
  by (relation "measure (\<lambda>(old, new, s). length s)") (auto simp: neq_Nil_conv)

definition replace :: "ustring \<Rightarrow> ustring \<Rightarrow> ustring \<Rightarrow> ustring" where
  "replace old new s =
     (if old = [] then new @ concat (map (\<lambda>c. c # new) s) else replace_ne old new s)"

subsection \<open>Data model\<close>

text \<open>
  A heading is the dictionary \<^verbatim>\<open>{level, text, anchor, url}\<close>; a guide is the dictionary
  \<^verbatim>\<open>{category, title, url}\<close> to which the crawl later adds the key \<^verbatim>\<open>headings\<close>
  (\<^verbatim>\<open>guide.get("headings", [])\<close> reads it, so the key may be missing).
\<close>

record heading =
  h_level :: int
  h_text :: ustring
  h_anchor :: ustring
  h_url :: ustring

record guide =
  g_category :: ustring
  g_title :: ustring
  g_url :: ustring
  g_headings :: "heading list option"

definition CSV_COLUMNS :: "ustring list" where
  "CSV_COLUMNS =
     [str ''Category'', str ''Titles'', str ''Chapters'', str ''Sections'', str ''Sub-sections'',
      str ''Sub-sub-sections'', str ''Details'', str ''Notes'', str ''URL'']"

subsection \<open>CSV row shaping\<close>

definition hyperlink :: "ustring \<Rightarrow> ustring \<Rightarrow> ustring" where
  "hyperlink url txt =
     (let safe_url = replace [dquote] (str ''%22'') url;
          safe_text = replace [dquote] [dquote, dquote] txt
      in str ''=HYPERLINK('' @ [dquote] @ safe_url @ [dquote] @ str '','' @ [dquote]
           @ safe_text @ [dquote] @ str '')'')"

text \<open>\<^verbatim>\<open>[""] * len(CSV_COLUMNS)\<close>\<close>

definition empty_row :: "ustring list" where
  "empty_row = replicate (length CSV_COLUMNS) []"

text \<open>
  The body of the inner loop over \<^verbatim>\<open>content_headings\<close>. The list comprehension has
  kept only levels from 2 up and the guard keeps the index below 7, so the index written
  is never negative and never out of range.
\<close>

definition heading_row :: "heading \<Rightarrow> ustring list" where
  "heading_row h =
     (let row = empty_row;
          col_index = h_level h
      in if col_index < int (length CSV_COLUMNS) - 2
         then row[nat col_index := hyperlink (h_url h) (h_text h)]
         else row)"

definition content_headings :: "guide \<Rightarrow> heading list" where
  "content_headings g =
     (let headings = (case g_headings g of None \<Rightarrow> [] | Some hs \<Rightarrow> hs)
      in filter (\<lambda>h. h_level h \<ge> 2) headings)"

definition title_row :: "ustring option \<Rightarrow> guide \<Rightarrow> ustring list" where
  "title_row prev_category g =
     (let category = g_category g;
          show_category = (if Some category \<noteq> prev_category then category else []);
          row = empty_row;
          row = (if show_category \<noteq> [] then row[0 := show_category] else row)
      in row[1 := hyperlink (g_url g) (g_title g)])"

text \<open>
  One iteration of the loop over the guides; the state is the pair of \<^verbatim>\<open>rows\<close> and
  \<^verbatim>\<open>prev_category\<close> (\<open>None\<close> before the first guide).
\<close>

definition guide_step :: "ustring list list \<times> ustring option \<Rightarrow> guide
    \<Rightarrow> ustring list list \<times> ustring option" where
  "guide_step st g =
     (let rows = fst st;
          prev_category = snd st;
          rows = rows @ [title_row prev_category g];
          rows = foldl (\<lambda>rs h. rs @ [heading_row h]) rows (content_headings g);
          rows = rows @ [empty_row]
      in (rows, Some (g_category g)))"

definition build_csv_rows :: "guide list \<Rightarrow> ustring list list" where
  "build_csv_rows guides = fst (foldl guide_step ([], None) guides)"

text \<open>
  \<^verbatim>\<open>write_csv\<close>: the rows handed to the CSV writer, in the order written (the header
  first). Encoding the rows as text is the library's work.
\<close>

definition write_csv :: "ustring list list \<Rightarrow> ustring list list" where
  "write_csv rows = CSV_COLUMNS # rows"

subsection \<open>Filters\<close>

text \<open>
  The filter arguments come from \<^verbatim>\<open>argparse\<close> with \<^verbatim>\<open>action="append"\<close> and default
  \<^verbatim>\<open>None\<close>: an optional list of strings. Python's truth test \<^verbatim>\<open>if xs:\<close> holds for a
  list that is present and not empty.
\<close>

definition truthy :: "'a list option \<Rightarrow> bool" where
  "truthy xs = (case xs of None \<Rightarrow> False | Some ys \<Rightarrow> ys \<noteq> [])"

definition filter_guides :: "(ustring \<Rightarrow> ustring) \<Rightarrow> guide list \<Rightarrow> ustring list option
    \<Rightarrow> ustring list option \<Rightarrow> guide list" where
  "filter_guides lower guides categories titles =
     (let filtered = guides;
          filtered =
            (if truthy categories
             then (let cats_lower = map lower (the categories)
                   in filter (\<lambda>g. list_ex (\<lambda>c. sublist c (lower (g_category g))) cats_lower)
                        filtered)
             else filtered);
          filtered =
            (if truthy titles
             then (let titles_lower = map lower (the titles)
                   in filter (\<lambda>g. list_ex (\<lambda>t. sublist t (lower (g_title g))) titles_lower)
                        filtered)
             else filtered)
      in filtered)"

text \<open>
  One iteration of the loop of \<^verbatim>\<open>filter_headings\<close>; the state is the pair of
  \<^verbatim>\<open>include_children\<close> and \<^verbatim>\<open>filtered\<close>.
\<close>

definition fh_step :: "(ustring \<Rightarrow> ustring) \<Rightarrow> ustring list \<Rightarrow> bool \<times> heading list
    \<Rightarrow> heading \<Rightarrow> bool \<times> heading list" where
  "fh_step lower chaps_lower st h =
     (let include_children =
            (if h_level h = 2 then list_ex (\<lambda>c. sublist c (lower (h_text h))) chaps_lower
             else fst st);
          filtered = (if include_children then snd st @ [h] else snd st)
      in (include_children, filtered))"

definition filter_headings :: "(ustring \<Rightarrow> ustring) \<Rightarrow> heading list \<Rightarrow> ustring list option
    \<Rightarrow> heading list" where
  "filter_headings lower headings chapters =
     (if \<not> truthy chapters then headings
      else (let chaps_lower = map lower (the chapters)
            in snd (foldl (fh_step lower chaps_lower) (False, []) headings)))"

subsection \<open>Heading text cleanup\<close>

definition BOILERPLATE_SUFFIXES :: "ustring list" where
  "BOILERPLATE_SUFFIXES =
     [str ''Copy linkLink copied to clipboard!'',
      str ''Copy linkLink copied to clipboard'',
      str ''Copy link'',
      str ''Link copied'',
      str ''Copied!'',
      str '' to clipboard!'']"

text \<open>The body of the loop over the suffixes.\<close>

definition strip_suffix :: "ustring \<Rightarrow> ustring \<Rightarrow> ustring" where
  "strip_suffix t suf =
     (if suffix suf t then strip (slice_upto_neg t (length suf)) else t)"

definition clean_heading_text :: "ustring \<Rightarrow> ustring" where
  "clean_heading_text t =
     (let t = join (str '' '') (str_split t)
      in foldl strip_suffix t BOILERPLATE_SUFFIXES)"

definition SKIP_HEADINGS :: "ustring set" where
  "SKIP_HEADINGS =
     {str ''legal notice'', str ''left navigation'', str ''copyright'', str ''privacy'', str ''red hat legal'',
      str ''about red hat'', str ''learn'', str ''try, buy, & sell'', str ''communities''}"

definition should_skip_heading :: "(ustring \<Rightarrow> ustring) \<Rightarrow> ustring \<Rightarrow> bool" where
  "should_skip_heading lower t = (strip (lower t) \<in> SKIP_HEADINGS)"

definition to_html_single :: "ustring \<Rightarrow> ustring" where
  "to_html_single url = replace (str ''/html/'') (str ''/html-single/'') url"

subsection \<open>HTTP and the HTML parser\<close>

text \<open>
  \<^verbatim>\<open>requests.get\<close> either raises a \<^verbatim>\<open>RequestException\<close> (with its message) or returns
  a response; \<^verbatim>\<open>raise_for_status\<close> raises one (an \<^verbatim>\<open>HTTPError\<close>) for a status from
  400 to 599. The network is a function from the URL to the outcome of the request.
\<close>

datatype error = RequestException ustring

record response =
  status_code :: int
  resp_text :: ustring

type_synonym http = "ustring \<Rightarrow> error + response"

definition raise_for_status :: "response \<Rightarrow> error + unit" where
  "raise_for_status r =
     (if 400 \<le> status_code r \<and> status_code r < 600
      then Inl (RequestException (str ''HTTPError'')) else Inr ())"

text \<open>
  What the script reads of the parsed landing page: for every \<^verbatim>\<open>h2\<close> element its
  \<^verbatim>\<open>get_text(strip=True)\<close> and, when it has a parent, the \<^verbatim>\<open>a\<close> elements with an
  \<^verbatim>\<open>href\<close> under the parent, each with its \<^verbatim>\<open>href\<close> and its \<^verbatim>\<open>get_text(strip=True)\<close>.
  The parser itself and \<^verbatim>\<open>urljoin\<close> are library code, taken as parameters.
\<close>

record link =
  l_href :: ustring
  l_text :: ustring

record h2_elem =
  h2_text :: ustring
  h2_parent_links :: "link list option"

subsection \<open>Landing page\<close>

text \<open>
  The body of the loop over the links of one category; the state is the pair of
  \<^verbatim>\<open>guides\<close> and \<^verbatim>\<open>seen_urls\<close>.
\<close>

definition link_step :: "(ustring \<Rightarrow> ustring \<Rightarrow> ustring) \<Rightarrow> ustring \<Rightarrow> ustring
    \<Rightarrow> guide list \<times> ustring set \<Rightarrow> link \<Rightarrow> guide list \<times> ustring set" where
  "link_step urljoin base_url category st lnk =
     (let guides = fst st;
          seen_urls = snd st;
          href = l_href lnk
      in if href = [] \<or> prefix (str ''#'') href \<or> prefix (str ''javascript:'') href
            \<or> prefix (str ''mailto:'') href
         then st
         else (let absolute_url = urljoin base_url href
               in if \<not> sublist (str ''/documentation/'') absolute_url then st
                  else (let guide_url = to_html_single absolute_url
                        in if guide_url \<in> seen_urls then st
                           else (let seen_urls = insert guide_url seen_urls;
                                     title = clean_heading_text (l_text lnk)
                                 in if title = [] then (guides, seen_urls)
                                    else (guides @
                                            [\<lparr>g_category = category, g_title = title,
                                              g_url = guide_url, g_headings = None\<rparr>],
                                          seen_urls)))))"

definition h2_step :: "(ustring \<Rightarrow> ustring) \<Rightarrow> (ustring \<Rightarrow> ustring \<Rightarrow> ustring)
    \<Rightarrow> ustring \<Rightarrow> guide list \<times> ustring set \<Rightarrow> h2_elem \<Rightarrow> guide list \<times> ustring set" where
  "h2_step lower urljoin base_url st h2 =
     (let category = clean_heading_text (h2_text h2)
      in if should_skip_heading lower category then st
         else (case h2_parent_links h2 of
                 None \<Rightarrow> st
               | Some links \<Rightarrow> foldl (link_step urljoin base_url category) st links))"

definition fetch_landing_page :: "(ustring \<Rightarrow> ustring) \<Rightarrow> http \<Rightarrow> (ustring \<Rightarrow> h2_elem list)
    \<Rightarrow> (ustring \<Rightarrow> ustring \<Rightarrow> ustring) \<Rightarrow> ustring \<Rightarrow> error + guide list" where
  "fetch_landing_page lower http_get find_all_h2 urljoin base_url =
     (let base_url = rstrip_chars (str ''/'') base_url
      in case http_get base_url of
           Inl e \<Rightarrow> Inl e
         | Inr response \<Rightarrow>
             (case raise_for_status response of
                Inl e \<Rightarrow> Inl e
              | Inr _ \<Rightarrow>
                  Inr (fst (foldl (h2_step lower urljoin base_url) ([], {})
                              (find_all_h2 (resp_text response))))))"

subsection \<open>Guide pages\<close>

text \<open>
  What the script reads of a heading element: its level \<^verbatim>\<open>int(h.name[1])\<close> (the tag
  matched \<^verbatim>\<open>^h[1-6]$\<close>), its \<^verbatim>\<open>get_text(strip=True)\<close>, its \<^verbatim>\<open>id\<close> attribute, the
  \<^verbatim>\<open>id\<close> attribute of its parent (the outer \<open>None\<close>: no parent), and the first inner
  \<^verbatim>\<open>a\<close> with an \<^verbatim>\<open>id\<close> and the first with a \<^verbatim>\<open>name\<close>. An attribute that is missing is
  \<open>None\<close>.
\<close>

record anchor_elem =
  a_id :: "ustring option"
  a_name :: "ustring option"

record heading_elem =
  he_level :: int
  he_text :: ustring
  he_id :: "ustring option"
  he_parent_id :: "ustring option option"
  he_a_with_id :: "anchor_elem option"
  he_a_with_name :: "anchor_elem option"

text \<open>\<^verbatim>\<open>d.get(key, "")\<close>\<close>

definition get_or_empty :: "ustring option \<Rightarrow> ustring" where
  "get_or_empty v = (case v of None \<Rightarrow> [] | Some x \<Rightarrow> x)"

definition find_anchor :: "heading_elem \<Rightarrow> ustring" where
  "find_anchor h =
     (let anchor = get_or_empty (he_id h);
          anchor =
            (if anchor = []
             then (case he_parent_id h of None \<Rightarrow> anchor | Some pid \<Rightarrow> get_or_empty pid)
             else anchor);
          anchor =
            (if anchor = []
             then (let inner_a =
                         (case he_a_with_id h of Some a \<Rightarrow> Some a | None \<Rightarrow> he_a_with_name h)
                   in case inner_a of
                        None \<Rightarrow> anchor
                      | Some a \<Rightarrow>
                          (if a_id a \<noteq> None \<and> a_id a \<noteq> Some [] then the (a_id a)
                           else get_or_empty (a_name a)))
             else anchor)
      in anchor)"

text \<open>
  The parser's part of a guide page: \<open>select_one\<close> is \<^verbatim>\<open>soup.select_one(selector)\<close>,
  \<open>root\<close> is the whole document as an element, and \<open>find_all_headings\<close> is
  \<^verbatim>\<open>find_all(re.compile(r"^h[1-6]$"))\<close> on an element, in document order.
\<close>

record 'n soup =
  select_one :: "ustring \<Rightarrow> 'n option"
  root :: 'n
  find_all_headings :: "'n \<Rightarrow> heading_elem list"

fun select_first :: "'n soup \<Rightarrow> ustring list \<Rightarrow> 'n option" where
  "select_first sp [] = None"
| "select_first sp (selector # rest) =
     (case select_one sp selector of Some a \<Rightarrow> Some a | None \<Rightarrow> select_first sp rest)"

definition heading_step :: "(ustring \<Rightarrow> ustring) \<Rightarrow> ustring \<Rightarrow> heading list \<Rightarrow> heading_elem
    \<Rightarrow> heading list" where
  "heading_step lower url headings h =
     (let t = clean_heading_text (he_text h)
      in if t = [] \<or> should_skip_heading lower t then headings
         else (let lvl = he_level h;
                   anchor = find_anchor h;
                   heading_url = (if anchor \<noteq> [] then url @ (str ''#'') @ anchor else url)
               in headings @
                    [\<lparr>h_level = lvl, h_text = t, h_anchor = anchor, h_url = heading_url\<rparr>]))"

text \<open>
  \<^verbatim>\<open>fetch_guide_headings\<close> returns the lines it printed to the standard error stream
  together with the heading list.
\<close>

definition fetch_guide_headings :: "(ustring \<Rightarrow> ustring) \<Rightarrow> http \<Rightarrow> (ustring \<Rightarrow> 'n soup)
    \<Rightarrow> ustring \<Rightarrow> ustring list \<times> heading list" where
  "fetch_guide_headings lower http_get parse url =
     (let fetched =
            (case http_get url of
               Inl e \<Rightarrow> Inl e
             | Inr response \<Rightarrow>
                 (case raise_for_status response of
                    Inl e \<Rightarrow> Inl e
                  | Inr _ \<Rightarrow> Inr response))
      in case fetched of
           Inl (RequestException e) \<Rightarrow> ([(str ''  Failed to fetch: '') @ e], [])
         | Inr response \<Rightarrow>
             (let sp = parse (resp_text response);
                  article =
                    (case select_first sp
                            [str ''article[aria-live='' @ [dquote] @ str ''polite'' @ [dquote]
                               @ str '']'',
                             str ''article[aria-live]'',
                             str ''article'', str ''main''] of
                       Some a \<Rightarrow> a
                     | None \<Rightarrow> root sp)
              in ([], foldl (heading_step lower url) [] (find_all_headings sp article))))"

text \<open>
  The loop of \<^verbatim>\<open>main\<close> that fetches the headings of every guide, one guide after the
  other, and stores them under the guide's key \<^verbatim>\<open>headings\<close>; the pause between two
  requests and the progress lines on the standard output are left out. The state is the
  pair of the standard error lines and the guides done so far.
\<close>

definition crawl_step :: "(ustring \<Rightarrow> ustring) \<Rightarrow> http \<Rightarrow> (ustring \<Rightarrow> 'n soup)
    \<Rightarrow> ustring list option \<Rightarrow> ustring list \<times> guide list \<Rightarrow> guide
    \<Rightarrow> ustring list \<times> guide list" where
  "crawl_step lower http_get parse chapter st g =
     (let fetched = fetch_guide_headings lower http_get parse (g_url g);
          headings = snd fetched;
          headings =
            (if truthy chapter then filter_headings lower headings chapter else headings)
      in (fst st @ fst fetched, snd st @ [g\<lparr>g_headings := Some headings\<rparr>]))"

definition crawl_guides :: "(ustring \<Rightarrow> ustring) \<Rightarrow> http \<Rightarrow> (ustring \<Rightarrow> 'n soup)
    \<Rightarrow> ustring list option \<Rightarrow> guide list \<Rightarrow> ustring list \<times> guide list" where
  "crawl_guides lower http_get parse chapter guides =
     foldl (crawl_step lower http_get parse chapter) ([], []) guides"

subsection \<open>Notions used to state the properties\<close>

text \<open>
  The rows one guide contributes, given the category of the guide before it; the rows of
  a list of guides; the index of a guide's first row; and the category a guide is compared
  with.
\<close>

definition guide_rows :: "ustring option \<Rightarrow> guide \<Rightarrow> ustring list list" where
  "guide_rows prev g = [title_row prev g] @ map heading_row (content_headings g) @ [empty_row]"

fun rows_from :: "ustring option \<Rightarrow> guide list \<Rightarrow> ustring list list" where
  "rows_from prev [] = []"
| "rows_from prev (g # gs) = guide_rows prev g @ rows_from (Some (g_category g)) gs"

definition row_offset :: "guide list \<Rightarrow> nat \<Rightarrow> nat" where
  "row_offset gs i = (\<Sum>g\<leftarrow>take i gs. 2 + length (content_headings g))"

definition prev_cat :: "ustring option \<Rightarrow> guide list \<Rightarrow> nat \<Rightarrow> ustring option" where
  "prev_cat p gs i = (if i = 0 then p else Some (g_category (gs ! (i - 1))))"

text \<open>
  Containing a substring without regard to case; the index \<open>j\<close> of the last heading of
  level 2 at or before the index \<open>i\<close>; and the headings a chapter filter is expected to keep:
  those whose last level-2 heading at or before them matches one of the chapters.
\<close>

definition contains_ci :: "(ustring \<Rightarrow> ustring) \<Rightarrow> ustring \<Rightarrow> ustring \<Rightarrow> bool" where
  "contains_ci lower s c = sublist (lower c) (lower s)"

definition last_h2_at :: "heading list \<Rightarrow> nat \<Rightarrow> nat \<Rightarrow> bool" where
  "last_h2_at hs i j = (j \<le> i \<and> h_level (hs ! j) = 2 \<and> (\<forall>k \<in> {j<..i}. h_level (hs ! k) \<noteq> 2))"

definition kept_by_chapter :: "(ustring \<Rightarrow> ustring) \<Rightarrow> ustring list \<Rightarrow> heading list \<Rightarrow> nat
    \<Rightarrow> bool" where
  "kept_by_chapter lower chs hs i =
     (\<exists>j \<in> {..i}. last_h2_at hs i j
        \<and> (\<exists>c \<in> set chs. contains_ci lower (h_text (hs ! j)) c))"

text \<open>
  What the claim about the heading text says, in its words: every run of whitespace becomes
  one space (\<open>collapse_runs\<close>), then each boilerplate suffix in turn is removed, with the
  whitespace before it, when the text ends with it (\<open>remove_suffix\<close>).
\<close>

primrec collapse_aux :: "bool \<Rightarrow> ustring \<Rightarrow> ustring" where
  "collapse_aux in_run [] = []"
| "collapse_aux in_run (c # cs) =
     (if isspace c then (if in_run then collapse_aux True cs else 32 # collapse_aux True cs)
      else c # collapse_aux False cs)"

definition collapse_runs :: "ustring \<Rightarrow> ustring" where
  "collapse_runs s = collapse_aux False s"

definition remove_suffix :: "ustring \<Rightarrow> ustring \<Rightarrow> ustring" where
  "remove_suffix t suf =
     (if suffix suf t then rstrip (take (length t - length suf) t) else t)"

definition claimed_clean_heading_text :: "ustring \<Rightarrow> ustring" where
  "claimed_clean_heading_text t =
     foldl remove_suffix (collapse_runs t)
       [str ''Copy linkLink copied to clipboard!'', str ''Copy linkLink copied to clipboard'',
        str ''Copy link'', str ''Link copied'', str ''Copied!'', str '' to clipboard!'']"

text \<open>A text that is empty or starts with a character that is not whitespace.\<close>

definition no_lead :: "ustring \<Rightarrow> bool" where
  "no_lead s = (s = [] \<or> \<not> isspace (hd s))"

text \<open>
  The invariant of the two loops of \<^verbatim>\<open>fetch_landing_page\<close>: the guides found so far have
  pairwise different urls, all of them in \<^verbatim>\<open>seen_urls\<close>, each the rewriting of a joined
  link.
\<close>

definition url_inv :: "ustring \<Rightarrow> (ustring \<Rightarrow> ustring \<Rightarrow> ustring) \<Rightarrow> guide list \<times> ustring set \<Rightarrow> bool" where
  "url_inv base urljoin st =
     (distinct (map g_url (fst st)) \<and> g_url ` set (fst st) \<subseteq> snd st
      \<and> (\<forall>g \<in> set (fst st). \<exists>href. g_url g = to_html_single (urljoin base href)))"

text \<open>
  A request that fails: the client raises, or the status is one that
  \<^verbatim>\<open>raise_for_status\<close> rejects. And what the crawl loop makes of one guide.
\<close>

definition fetch_fails :: "http \<Rightarrow> ustring \<Rightarrow> bool" where
  "fetch_fails http_get url =
     (case http_get url of
        Inl e \<Rightarrow> True
      | Inr response \<Rightarrow> 400 \<le> status_code response \<and> status_code response < 600)"

definition crawl_one :: "(ustring \<Rightarrow> ustring) \<Rightarrow> http \<Rightarrow> (ustring \<Rightarrow> 'n soup)
    \<Rightarrow> ustring list option \<Rightarrow> guide \<Rightarrow> guide" where
  "crawl_one lower http_get parse chapter g =
     g\<lparr>g_headings := Some
         (if truthy chapter
          then filter_headings lower
                 (snd (fetch_guide_headings lower http_get parse (g_url g))) chapter
          else snd (fetch_guide_headings lower http_get parse (g_url g)))\<rparr>"

text \<open>
  \<^verbatim>\<open>str.lower()\<close> on a string of ASCII characters: the letters A to Z become a to z. The
  examples, which are ASCII, are run with it.
\<close>

definition ascii_lower :: "ustring \<Rightarrow> ustring" where
  "ascii_lower s = map (\<lambda>n. if 65 \<le> n \<and> n \<le> 90 then n + 32 else n) s"

text \<open>A small inventory used to run the functions on.\<close>

definition example_guides :: "guide list" where
  "example_guides =
     [\<lparr>g_category = str ''Install'', g_title = str ''Guide A'', g_url = str ''u/a'',
       g_headings = Some
         [\<lparr>h_level = 1, h_text = str ''Guide A'', h_anchor = [], h_url = str ''u/a''\<rparr>,
          \<lparr>h_level = 2, h_text = str ''Intro'', h_anchor = str ''i'', h_url = str ''u/a#i''\<rparr>,
          \<lparr>h_level = 3, h_text = str ''Scope'', h_anchor = str ''s'', h_url = str ''u/a#s''\<rparr>]\<rparr>,
      \<lparr>g_category = str ''Install'', g_title = str ''Guide B'', g_url = str ''u/b'',
       g_headings = Some
         [\<lparr>h_level = 6, h_text = str ''Note'', h_anchor = str ''n'', h_url = str ''u/b#n''\<rparr>]\<rparr>,
      \<lparr>g_category = str ''Manage'', g_title = str ''Guide C'', g_url = str ''u/c'', g_headings = None\<rparr>]"

definition example_headings :: "heading list" where
  "example_headings =
     [\<lparr>h_level = 1, h_text = str ''Guide'', h_anchor = [], h_url = str ''u''\<rparr>,
      \<lparr>h_level = 3, h_text = str ''Orphan'', h_anchor = str ''o'', h_url = str ''u#o''\<rparr>,
      \<lparr>h_level = 2, h_text = str ''Install'', h_anchor = str ''i'', h_url = str ''u#i''\<rparr>,
      \<lparr>h_level = 3, h_text = str ''Steps'', h_anchor = str ''s'', h_url = str ''u#s''\<rparr>,
      \<lparr>h_level = 2, h_text = str ''Manage'', h_anchor = str ''m'', h_url = str ''u#m''\<rparr>,
      \<lparr>h_level = 3, h_text = str ''Users'', h_anchor = str ''r'', h_url = str ''u#r''\<rparr>]"

text \<open>A small site used to run the functions on.\<close>

definition example_landing :: "h2_elem list" where
  "example_landing =
     [\<lparr>h2_text = str ''Install  Copy link'',
       h2_parent_links = Some
         [\<lparr>l_href = str ''/documentation/p/html/g1'', l_text = str ''Guide 1''\<rparr>,
          \<lparr>l_href = str ''#top'', l_text = str ''Top''\<rparr>,
          \<lparr>l_href = str ''/documentation/p/html-single/g1'', l_text = str ''Guide 1 again''\<rparr>,
          \<lparr>l_href = str ''/documentation/p/html/g2'', l_text = str ''Guide 2''\<rparr>]\<rparr>,
      \<lparr>h2_text = str ''Legal Notice'',
       h2_parent_links = Some [\<lparr>l_href = str ''/documentation/legal'', l_text = str ''Legal''\<rparr>]\<rparr>]"

definition example_http :: http where
  "example_http url =
     (if url = str ''https://d'' then Inr \<lparr>status_code = 200, resp_text = str ''landing''\<rparr>
      else if url = str ''https://d/documentation/p/html-single/g1''
      then Inr \<lparr>status_code = 404, resp_text = []\<rparr>
      else if url = str ''https://d/documentation/p/html-single/g2''
      then Inr \<lparr>status_code = 200, resp_text = str ''guide''\<rparr>
      else Inl (RequestException (str ''timed out'')))"

definition example_found :: "guide list" where
  "example_found =
     [\<lparr>g_category = str ''Install'', g_title = str ''Guide 1'',
       g_url = str ''https://d/documentation/p/html-single/g1'', g_headings = None\<rparr>,
      \<lparr>g_category = str ''Install'', g_title = str ''Guide 2'',
       g_url = str ''https://d/documentation/p/html-single/g2'', g_headings = None\<rparr>]"

definition example_urljoin :: "ustring \<Rightarrow> ustring \<Rightarrow> ustring" where
  "example_urljoin base href = (str ''https://d'') @ href"

definition example_soup :: "ustring \<Rightarrow> unit soup" where
  "example_soup t =
     \<lparr>select_one = (\<lambda>s. None), root = (),
      find_all_headings = (\<lambda>n.
        [\<lparr>he_level = 1, he_text = str ''Guide 2'', he_id = None, he_parent_id = None,
          he_a_with_id = None, he_a_with_name = None\<rparr>,
         \<lparr>he_level = 2, he_text = str ''Intro Copy link'', he_id = Some (str ''intro''),
          he_parent_id = None, he_a_with_id = None, he_a_with_name = None\<rparr>])\<rparr>"

text \<open>
  Two landing pages with two links to one guide, one link with a text and one without (an
  icon, say): the link with the text first, and the link without it first.
\<close>

definition example_landing_titled :: "h2_elem list" where
  "example_landing_titled =
     [\<lparr>h2_text = str ''Install'',
       h2_parent_links = Some
         [\<lparr>l_href = str ''/documentation/p/html-single/g1'', l_text = str ''Guide 1''\<rparr>,
          \<lparr>l_href = str ''/documentation/p/html/g1'', l_text = []\<rparr>]\<rparr>]"

definition example_landing_untitled :: "h2_elem list" where
  "example_landing_untitled =
     [\<lparr>h2_text = str ''Install'',
       h2_parent_links = Some
         [\<lparr>l_href = str ''/documentation/p/html/g1'', l_text = []\<rparr>,
          \<lparr>l_href = str ''/documentation/p/html-single/g1'', l_text = str ''Guide 1''\<rparr>]\<rparr>]"

section \<open>Row shaping\<close>

subsection \<open>The loops as list functions\<close>

lemma str_space: "str '' '' = [32]"
  by (simp add: str_def)

lemma foldl_append_map: "foldl (\<lambda>rs h. rs @ [f h]) rows hs = rows @ map f hs"
  by (induction hs arbitrary: rows) simp_all

lemma guide_step_rows: "guide_step (rows, prev) g = (rows @ guide_rows prev g, Some (g_category g))"
  by (simp add: guide_step_def guide_rows_def foldl_append_map)

lemma foldl_guide_step: "fst (foldl guide_step (rows, prev) gs) = rows @ rows_from prev gs"
  by (induction gs arbitrary: rows prev) (simp_all add: guide_step_rows)

lemma build_csv_rows_rows_from: "build_csv_rows gs = rows_from None gs"
  by (simp add: build_csv_rows_def foldl_guide_step)

lemma rows_from_concat:
  "rows_from p gs = concat (map (\<lambda>(prev, g). guide_rows prev g)
      (zip (p # map (\<lambda>g. Some (g_category g)) gs) gs))"
  by (induction gs arbitrary: p) simp_all

lemma length_CSV_COLUMNS: "length CSV_COLUMNS = 9"
  by (simp add: CSV_COLUMNS_def)

lemma empty_row_replicate: "empty_row = replicate 9 []"
  by (simp add: empty_row_def length_CSV_COLUMNS)

lemma length_empty_row: "length empty_row = 9"
  by (simp add: empty_row_replicate)

lemma length_heading_row: "length (heading_row h) = 9"
  by (simp add: heading_row_def Let_def length_empty_row)

lemma length_title_row: "length (title_row p g) = 9"
  by (simp add: title_row_def Let_def length_empty_row)

lemma length_guide_rows: "length (guide_rows p g) = 2 + length (content_headings g)"
  by (simp add: guide_rows_def)

lemma guide_rows_width: "r \<in> set (guide_rows p g) \<Longrightarrow> length r = 9"
  by (auto simp: guide_rows_def length_empty_row length_heading_row length_title_row)

lemma rows_from_width: "r \<in> set (rows_from p gs) \<Longrightarrow> length r = 9"
  by (induction gs arbitrary: p) (auto simp: guide_rows_width)

lemma length_rows_from: "length (rows_from p gs) = (\<Sum>g\<leftarrow>gs. 2 + length (content_headings g))"
  by (induction gs arbitrary: p) (simp_all add: length_guide_rows)

lemma hyperlink_nonempty: "hyperlink u t \<noteq> []"
  by (simp add: hyperlink_def Let_def)

lemma nth_rows_from:
  "i < length gs \<Longrightarrow> k < 2 + length (content_headings (gs ! i)) \<Longrightarrow>
   rows_from p gs ! (row_offset gs i + k) = guide_rows (prev_cat p gs i) (gs ! i) ! k"
proof (induction gs arbitrary: i p)
  case Nil
  then show ?case by simp
next
  case (Cons g gs)
  show ?case
  proof (cases i)
    case 0
    with Cons.prems show ?thesis
      by (simp add: row_offset_def prev_cat_def nth_append length_guide_rows)
  next
    case (Suc j)
    with Cons.prems have j: "j < length gs" and k: "k < 2 + length (content_headings (gs ! j))"
      by simp_all
    have "rows_from p (g # gs) ! (row_offset (g # gs) i + k)
        = rows_from (Some (g_category g)) gs ! (row_offset gs j + k)"
      using Suc by (simp add: row_offset_def nth_append length_guide_rows)
    also have "\<dots> = guide_rows (prev_cat (Some (g_category g)) gs j) (gs ! j) ! k"
      by (rule Cons.IH [OF j k])
    also have "prev_cat (Some (g_category g)) gs j = prev_cat p (g # gs) i"
      using Suc by (cases j) (simp_all add: prev_cat_def)
    finally show ?thesis using Suc by simp
  qed
qed

lemma row_offset_bound:
  "i < length gs \<Longrightarrow> k < 2 + length (content_headings (gs ! i)) \<Longrightarrow>
   row_offset gs i + k < length (rows_from p gs)"
proof -
  assume i: "i < length gs" and k: "k < 2 + length (content_headings (gs ! i))"
  have "gs = take i gs @ gs ! i # drop (Suc i) gs"
    using i by (simp add: id_take_nth_drop)
  then have "length (rows_from p gs) =
      (\<Sum>g\<leftarrow>take i gs @ gs ! i # drop (Suc i) gs. 2 + length (content_headings g))"
    by (simp add: length_rows_from)
  then show ?thesis using k by (simp add: row_offset_def)
qed

lemma heading_row_cols:
  "2 \<le> h_level h \<Longrightarrow> h_level h \<le> 6 \<Longrightarrow>
   heading_row h = (replicate 9 [])[nat (h_level h) := hyperlink (h_url h) (h_text h)]"
  by (simp add: heading_row_def Let_def length_CSV_COLUMNS empty_row_replicate)

lemma content_headings_level: "h \<in> set (content_headings g) \<Longrightarrow> 2 \<le> h_level h"
  by (auto simp: content_headings_def Let_def)

lemma title_row_col0:
  "title_row p g ! 0 = (if Some (g_category g) \<noteq> p then g_category g else [])"
  by (simp add: title_row_def Let_def empty_row_replicate)

lemma title_row_col1: "title_row p g ! 1 = hyperlink (g_url g) (g_title g)"
  by (simp add: title_row_def Let_def empty_row_replicate)

lemma title_row_tail: "2 \<le> k \<Longrightarrow> k < 9 \<Longrightarrow> title_row p g ! k = []"
  by (simp add: title_row_def Let_def empty_row_replicate)

lemma heading_row_tail: "7 \<le> k \<Longrightarrow> k < 9 \<Longrightarrow> heading_row h ! k = []"
  by (auto simp add: heading_row_def Let_def empty_row_replicate length_CSV_COLUMNS)

lemma empty_row_nth: "k < 9 \<Longrightarrow> empty_row ! k = []"
  by (simp add: empty_row_replicate)

lemma guide_rows_tail: "r \<in> set (guide_rows p g) \<Longrightarrow> 7 \<le> k \<Longrightarrow> k < 9 \<Longrightarrow> r ! k = []"
  by (auto simp: guide_rows_def title_row_tail heading_row_tail empty_row_nth)

lemma rows_from_tail: "r \<in> set (rows_from p gs) \<Longrightarrow> 7 \<le> k \<Longrightarrow> k < 9 \<Longrightarrow> r ! k = []"
  by (induction gs arbitrary: p) (auto simp: guide_rows_tail)

subsection \<open>C1: heading levels and columns\<close>

text \<open>
  Claim C1. In the rows of \<^const>\<open>build_csv_rows\<close>, the row of the \<open>j\<close>-th kept heading of
  guide \<open>i\<close> stands \<open>1 + j\<close> rows after the guide's title row. The headings kept are those
  of level 2 and more, so a heading of level 1 has no row. For a level from 2 to 6 the row
  is nine empty cells with the HYPERLINK formula of the heading's url and text written at
  the index equal to the level, that cell is the only one that is not empty, and the
  indices 2 to 6 are the columns Chapters, Sections, Sub-sections, Sub-sub-sections and
  Details.
\<close>

theorem heading_level_fixes_column:
  assumes "i < length gs" and "j < length (content_headings (gs ! i))"
  shows "(let h = content_headings (gs ! i) ! j;
              row = build_csv_rows gs ! (row_offset gs i + 1 + j)
          in 2 \<le> h_level h \<and> row = heading_row h \<and>
             (h_level h \<le> 6 \<longrightarrow>
                row = (replicate 9 [])[nat (h_level h) := hyperlink (h_url h) (h_text h)] \<and>
                hyperlink (h_url h) (h_text h) \<noteq> [] \<and>
                (\<forall>k<9. row ! k \<noteq> [] \<longleftrightarrow> k = nat (h_level h))))
         \<and> content_headings (gs ! i) =
             filter (\<lambda>h. 2 \<le> h_level h) (case g_headings (gs ! i) of None \<Rightarrow> [] | Some hs \<Rightarrow> hs)
         \<and> map (\<lambda>l. CSV_COLUMNS ! l) [2, 3, 4, 5, 6] =
             [str ''Chapters'', str ''Sections'', str ''Sub-sections'', str ''Sub-sub-sections'', str ''Details'']"
proof -
  define h where "h = content_headings (gs ! i) ! j"
  define row where "row = build_csv_rows gs ! (row_offset gs i + 1 + j)"
  have mem: "h \<in> set (content_headings (gs ! i))"
    using assms(2) by (simp add: h_def)
  then have lvl: "2 \<le> h_level h"
    by (rule content_headings_level)
  have "row = guide_rows (prev_cat None gs i) (gs ! i) ! (1 + j)"
    using nth_rows_from [OF assms(1), of "1 + j" None] assms(2)
    by (simp add: row_def build_csv_rows_rows_from add.assoc)
  then have row: "row = heading_row h"
    using assms(2) by (simp add: guide_rows_def nth_append h_def)
  have cols: "row = (replicate 9 [])[nat (h_level h) := hyperlink (h_url h) (h_text h)]
      \<and> hyperlink (h_url h) (h_text h) \<noteq> []
      \<and> (\<forall>k<9. row ! k \<noteq> [] \<longleftrightarrow> k = nat (h_level h))" if le: "h_level h \<le> 6"
  proof -
    have r: "row = (replicate 9 [])[nat (h_level h) := hyperlink (h_url h) (h_text h)]"
      using row heading_row_cols [OF lvl le] by simp
    have n: "nat (h_level h) < 9" using le by simp
    show ?thesis
      using n by (auto simp: r hyperlink_nonempty nth_list_update)
  qed
  have names: "map (\<lambda>l. CSV_COLUMNS ! l) [2, 3, 4, 5, 6] =
      [str ''Chapters'', str ''Sections'', str ''Sub-sections'', str ''Sub-sub-sections'', str ''Details'']"
    by (simp add: CSV_COLUMNS_def)
  have ch: "content_headings (gs ! i) =
      filter (\<lambda>h. 2 \<le> h_level h) (case g_headings (gs ! i) of None \<Rightarrow> [] | Some hs \<Rightarrow> hs)"
    by (simp add: content_headings_def)
  show ?thesis
    unfolding Let_def h_def [symmetric] row_def [symmetric]
    using lvl row cols names ch by blast
qed

theorem heading_level_fixes_column_witness:
  "(0::nat) < length example_guides \<and> (1::nat) < length (content_headings (example_guides ! 0))
   \<and> build_csv_rows example_guides ! 2 =
       [[], [], [], hyperlink (str ''u/a#s'') (str ''Scope''), [], [], [], [], []]"
proof -
  have a: "(0::nat) < length example_guides"
    by (simp add: example_guides_def)
  have c: "content_headings (example_guides ! 0) =
      [\<lparr>h_level = 2, h_text = str ''Intro'', h_anchor = str ''i'', h_url = str ''u/a#i''\<rparr>,
       \<lparr>h_level = 3, h_text = str ''Scope'', h_anchor = str ''s'', h_url = str ''u/a#s''\<rparr>]"
    by (simp add: example_guides_def content_headings_def)
  have b: "(1::nat) < length (content_headings (example_guides ! 0))"
    by (simp add: c)
  have r: "heading_row \<lparr>h_level = 3, h_text = str ''Scope'', h_anchor = str ''s'', h_url = str ''u/a#s''\<rparr> =
      [[], [], [], hyperlink (str ''u/a#s'') (str ''Scope''), [], [], [], [], []]"
    by (simp add: heading_row_def empty_row_def CSV_COLUMNS_def eval_nat_numeral)
  show ?thesis
    using heading_level_fixes_column [OF a b] a b
    by (simp add: c r Let_def row_offset_def numeral_2_eq_2)
qed

subsection \<open>C2: the category is shown once per group\<close>

text \<open>
  Claim C2. The first row of guide \<open>i\<close> is its title row; its cell 0 is the guide's
  category when the guide is the first of the list or its category differs from that of
  the guide just before it, and the empty string otherwise. For a category that is not the
  empty string, the cell equals the category exactly in that case.
\<close>

theorem category_shown_once_per_group:
  assumes "i < length gs"
  shows "(let g = gs ! i;
              row = build_csv_rows gs ! row_offset gs i;
              starts_group = (i = 0 \<or> g_category g \<noteq> g_category (gs ! (i - 1)))
          in row = title_row (if i = 0 then None else Some (g_category (gs ! (i - 1)))) g
             \<and> row ! 1 = hyperlink (g_url g) (g_title g)
             \<and> row ! 0 = (if starts_group then g_category g else [])
             \<and> (g_category g \<noteq> [] \<longrightarrow> (row ! 0 = g_category g \<longleftrightarrow> starts_group)))"
proof -
  define g where "g = gs ! i"
  define row where "row = build_csv_rows gs ! row_offset gs i"
  have "row = guide_rows (prev_cat None gs i) g ! 0"
    using nth_rows_from [OF assms, of 0 None]
    by (simp add: row_def g_def build_csv_rows_rows_from)
  then have row: "row = title_row (if i = 0 then None else Some (g_category (gs ! (i - 1)))) g"
    by (simp add: guide_rows_def prev_cat_def)
  have c0: "row ! 0 =
      (if i = 0 \<or> g_category g \<noteq> g_category (gs ! (i - 1)) then g_category g else [])"
    by (auto simp: row title_row_col0)
  have c1: "row ! 1 = hyperlink (g_url g) (g_title g)"
    by (simp only: row title_row_col1)
  have iff: "g_category g \<noteq> [] \<longrightarrow>
      (row ! 0 = g_category g \<longleftrightarrow> (i = 0 \<or> g_category g \<noteq> g_category (gs ! (i - 1))))"
    by (auto simp: c0)
  show ?thesis
    unfolding Let_def g_def [symmetric] row_def [symmetric]
    using row c0 c1 iff by blast
qed

theorem category_shown_once_per_group_witness:
  "(2::nat) < length example_guides
   \<and> build_csv_rows example_guides ! row_offset example_guides 1 ! 0 = []
   \<and> build_csv_rows example_guides ! row_offset example_guides 2 ! 0 = str ''Manage''
   \<and> row_offset example_guides 1 = 4 \<and> row_offset example_guides 2 = 7"
proof -
  have b: "(1::nat) < length example_guides" and c: "(2::nat) < length example_guides"
    by (simp_all add: example_guides_def)
  have o: "row_offset example_guides 1 = 4" "row_offset example_guides 2 = 7"
    by (simp_all add: row_offset_def example_guides_def content_headings_def
        eval_nat_numeral)
  have n: "g_category (example_guides ! 1) = str ''Install''"
    "g_category (example_guides ! (1 - 1)) = str ''Install''"
    "g_category (example_guides ! 2) = str ''Manage''"
    "g_category (example_guides ! (2 - 1)) = str ''Install''"
    by (simp_all add: example_guides_def)
  have r1: "build_csv_rows example_guides ! row_offset example_guides 1 ! 0 = []"
    using category_shown_once_per_group
      [OF b, unfolded Let_def n, THEN conjunct2, THEN conjunct2, THEN conjunct1]
    by simp
  have ne: "str ''Manage'' \<noteq> str ''Install''"
    by code_simp
  have r2: "build_csv_rows example_guides ! row_offset example_guides 2 ! 0 = str ''Manage''"
    using category_shown_once_per_group
      [OF c, unfolded Let_def n, THEN conjunct2, THEN conjunct2, THEN conjunct1] ne
    by simp
  from c r1 r2 o show ?thesis by simp
qed

subsection \<open>C8: the shape of the CSV\<close>

text \<open>
  Claim C8. The first row written is the header of nine column names and the rows of
  \<^const>\<open>build_csv_rows\<close> follow it; every such row has nine cells; the rows are, guide by
  guide, one title row, one row for every heading of level 2 or more, and one row of nine
  empty cells; so their number is the sum over the guides of 2 plus the number of
  headings of level 2 or more.
\<close>

theorem csv_fixed_shape:
  "write_csv (build_csv_rows gs) =
     [str ''Category'', str ''Titles'', str ''Chapters'', str ''Sections'', str ''Sub-sections'',
      str ''Sub-sub-sections'', str ''Details'', str ''Notes'', str ''URL''] # build_csv_rows gs
   \<and> (\<forall>r \<in> set (build_csv_rows gs). length r = 9)
   \<and> build_csv_rows gs =
       concat (map (\<lambda>(prev, g).
                 [title_row prev g] @ map heading_row (content_headings g) @ [replicate 9 []])
               (zip (None # map (\<lambda>g. Some (g_category g)) gs) gs))
   \<and> (\<forall>g \<in> set gs. content_headings g =
         filter (\<lambda>h. 2 \<le> h_level h) (case g_headings g of None \<Rightarrow> [] | Some hs \<Rightarrow> hs))
   \<and> length (build_csv_rows gs) = (\<Sum>g\<leftarrow>gs. 2 + length (content_headings g))"
proof -
  have header: "write_csv (build_csv_rows gs) =
     [str ''Category'', str ''Titles'', str ''Chapters'', str ''Sections'', str ''Sub-sections'',
      str ''Sub-sub-sections'', str ''Details'', str ''Notes'', str ''URL''] # build_csv_rows gs"
    by (simp add: write_csv_def CSV_COLUMNS_def)
  have width: "\<forall>r \<in> set (build_csv_rows gs). length r = 9"
    by (simp add: build_csv_rows_rows_from rows_from_width)
  have shape: "build_csv_rows gs =
       concat (map (\<lambda>(prev, g).
                 [title_row prev g] @ map heading_row (content_headings g) @ [replicate 9 []])
               (zip (None # map (\<lambda>g. Some (g_category g)) gs) gs))"
    unfolding build_csv_rows_rows_from rows_from_concat guide_rows_def empty_row_replicate ..
  have kept: "\<forall>g \<in> set gs. content_headings g =
         filter (\<lambda>h. 2 \<le> h_level h) (case g_headings g of None \<Rightarrow> [] | Some hs \<Rightarrow> hs)"
    by (simp add: content_headings_def)
  have count: "length (build_csv_rows gs) = (\<Sum>g\<leftarrow>gs. 2 + length (content_headings g))"
    by (simp add: build_csv_rows_rows_from length_rows_from)
  from header width shape kept count show ?thesis by blast
qed

theorem csv_fixed_shape_witness:
  "hd (write_csv (build_csv_rows example_guides)) = CSV_COLUMNS
   \<and> length (build_csv_rows example_guides) = 9
   \<and> list_all (\<lambda>r. length r = 9) (build_csv_rows example_guides)"
proof -
  have c: "map (\<lambda>g. length (content_headings g)) example_guides = [2, 1, 0]"
    by (simp add: example_guides_def content_headings_def)
  have "(\<Sum>g\<leftarrow>example_guides. 2 + length (content_headings g))
      = (\<Sum>n\<leftarrow>map (\<lambda>g. length (content_headings g)) example_guides. 2 + n)"
    by (simp add: comp_def)
  then have s: "(\<Sum>g\<leftarrow>example_guides. 2 + length (content_headings g)) = 9"
    by (simp add: c)
  note t = csv_fixed_shape [of example_guides]
  have h: "hd (write_csv (build_csv_rows example_guides)) = CSV_COLUMNS"
    using t [THEN conjunct1] by (simp add: CSV_COLUMNS_def)
  have w: "list_all (\<lambda>r. length r = 9) (build_csv_rows example_guides)"
    using t [THEN conjunct2, THEN conjunct1] by (simp add: list_all_iff)
  have n: "length (build_csv_rows example_guides) = 9"
    using t [THEN conjunct2, THEN conjunct2, THEN conjunct2, THEN conjunct2] by (simp only: s)
  from h n w show ?thesis by simp
qed

subsection \<open>C9: the Notes and URL columns stay empty\<close>

text \<open>
  Claim C9. Every row of \<^const>\<open>build_csv_rows\<close> has nine cells, and its cells 7 (Notes) and
  8 (URL) are empty strings.
\<close>

theorem notes_and_url_columns_empty:
  "r \<in> set (build_csv_rows gs) \<Longrightarrow> length r = 9 \<and> r ! 7 = [] \<and> r ! 8 = []"
  by (simp add: build_csv_rows_rows_from rows_from_width rows_from_tail)

theorem notes_and_url_columns_empty_witness:
  "heading_row \<lparr>h_level = 6, h_text = str ''Note'', h_anchor = str ''n'', h_url = str ''u/b#n''\<rparr>
     \<in> set (build_csv_rows example_guides)
   \<and> heading_row \<lparr>h_level = 6, h_text = str ''Note'', h_anchor = str ''n'', h_url = str ''u/b#n''\<rparr> ! 7 = []
   \<and> heading_row \<lparr>h_level = 6, h_text = str ''Note'', h_anchor = str ''n'', h_url = str ''u/b#n''\<rparr> ! 8 = []"
proof -
  have m: "heading_row \<lparr>h_level = 6, h_text = str ''Note'', h_anchor = str ''n'', h_url = str ''u/b#n''\<rparr>
      \<in> set (build_csv_rows example_guides)"
    by (simp add: build_csv_rows_rows_from example_guides_def guide_rows_def
        content_headings_def)
  show ?thesis
    using notes_and_url_columns_empty [OF m] m by simp
qed

section \<open>Filters\<close>

lemma any_lower: "list_ex (\<lambda>c. sublist c (lower s)) (map lower cs) = (\<exists>c \<in> set cs. contains_ci lower s c)"
  by (simp add: list_ex_iff contains_ci_def)

lemma filter_guides_filter:
  "filter_guides lower gs cats tits =
     filter (\<lambda>g. (truthy cats \<longrightarrow> (\<exists>c \<in> set (the cats). contains_ci lower (g_category g) c))
              \<and> (truthy tits \<longrightarrow> (\<exists>t \<in> set (the tits). contains_ci lower (g_title g) t))) gs"
  by (simp add: filter_guides_def Let_def any_lower)

lemma fh_foldl_subseq:
  "\<exists>ys. snd (foldl (fh_step lower cl) (b, acc) hs) = acc @ ys \<and> subseq ys hs"
proof (induction hs arbitrary: b acc)
  case Nil
  then show ?case by simp
next
  case (Cons h hs)
  obtain b' acc' where st: "fh_step lower cl (b, acc) h = (b', acc')"
    by (cases "fh_step lower cl (b, acc) h")
  then have acc': "acc' = acc \<or> acc' = acc @ [h]"
    by (auto simp: fh_step_def Let_def split: if_splits)
  obtain ys where ys: "snd (foldl (fh_step lower cl) (b', acc') hs) = acc' @ ys" "subseq ys hs"
    using Cons.IH by blast
  from acc' show ?case
  proof
    assume "acc' = acc"
    with ys st show ?thesis by (auto intro: exI [of _ ys])
  next
    assume "acc' = acc @ [h]"
    with ys st show ?thesis by (auto intro: exI [of _ "h # ys"])
  qed
qed

lemma filter_headings_subseq: "subseq (filter_headings lower hs chs) hs"
proof (cases "truthy chs")
  case True
  then show ?thesis
    using fh_foldl_subseq [of lower "map lower (the chs)" False "[]" hs]
    by (auto simp: filter_headings_def Let_def)
next
  case False
  then show ?thesis by (simp add: filter_headings_def)
qed

lemma kept_by_chapter_append:
  "i < length hs \<Longrightarrow> kept_by_chapter lower chs (hs @ ys) i = kept_by_chapter lower chs hs i"
  by (auto simp: kept_by_chapter_def last_h2_at_def nth_append)

lemma kept_by_chapter_last:
  "kept_by_chapter lower chs (hs @ [x]) (length hs) =
     (if h_level x = 2 then (\<exists>c \<in> set chs. contains_ci lower (h_text x) c)
      else hs \<noteq> [] \<and> kept_by_chapter lower chs hs (length hs - 1))"
proof (cases "h_level x = 2")
  case True
  have "last_h2_at (hs @ [x]) (length hs) j \<longleftrightarrow> j = length hs" for j
  proof
    assume a: "last_h2_at (hs @ [x]) (length hs) j"
    show "j = length hs"
    proof (rule ccontr)
      assume "j \<noteq> length hs"
      with a have "length hs \<in> {j<..length hs}" by (simp add: last_h2_at_def)
      with a have "h_level ((hs @ [x]) ! length hs) \<noteq> 2"
        unfolding last_h2_at_def by blast
      with True show False by simp
    qed
  next
    assume "j = length hs"
    with True show "last_h2_at (hs @ [x]) (length hs) j" by (simp add: last_h2_at_def)
  qed
  with True show ?thesis by (simp add: kept_by_chapter_def)
next
  case False
  have eq: "last_h2_at (hs @ [x]) (length hs) j \<longleftrightarrow>
      hs \<noteq> [] \<and> j \<le> length hs - 1 \<and> last_h2_at hs (length hs - 1) j" for j
  proof (cases "j < length hs")
    case True
    then have ne: "hs \<noteq> []" by auto
    have split: "{j<..length hs} = insert (length hs) {j<..length hs - 1}"
      using True by auto
    have "(\<forall>k \<in> {j<..length hs - 1}. h_level ((hs @ [x]) ! k) \<noteq> 2)
        \<longleftrightarrow> (\<forall>k \<in> {j<..length hs - 1}. h_level (hs ! k) \<noteq> 2)"
      using ne by (intro ball_cong refl) (auto simp: nth_append)
    then show ?thesis
      using True False ne by (auto simp: last_h2_at_def split nth_append)
  next
    case ge: False
    show ?thesis
    proof (cases "j = length hs")
      case True
      have "hs \<noteq> [] \<Longrightarrow> \<not> length hs \<le> length hs - 1"
        by (cases hs) simp_all
      with True False show ?thesis by (auto simp: last_h2_at_def)
    next
      case False
      with ge show ?thesis by (auto simp: last_h2_at_def)
    qed
  qed
  show ?thesis
  proof (cases "hs = []")
    case True
    with False show ?thesis unfolding kept_by_chapter_def eq by simp
  next
    case ne: False
    then have lt: "length hs - 1 < length hs" by (cases hs) simp_all
    have "(\<exists>j \<in> {..length hs}. j \<le> length hs - 1 \<and> last_h2_at hs (length hs - 1) j
             \<and> (\<exists>c \<in> set chs. contains_ci lower (h_text ((hs @ [x]) ! j)) c))
        \<longleftrightarrow> (\<exists>j \<in> {..length hs - 1}. last_h2_at hs (length hs - 1) j
             \<and> (\<exists>c \<in> set chs. contains_ci lower (h_text (hs ! j)) c))"
      (is "?l \<longleftrightarrow> ?r")
    proof
      assume ?l
      then obtain j where j: "j \<le> length hs - 1" "last_h2_at hs (length hs - 1) j"
        "\<exists>c \<in> set chs. contains_ci lower (h_text ((hs @ [x]) ! j)) c"
        by blast
      from j(1) lt have "(hs @ [x]) ! j = hs ! j" by (simp add: nth_append)
      with j have "j \<in> {..length hs - 1} \<and> last_h2_at hs (length hs - 1) j
          \<and> (\<exists>c \<in> set chs. contains_ci lower (h_text (hs ! j)) c)"
        by simp
      then show ?r by blast
    next
      assume ?r
      then obtain j where j: "j \<le> length hs - 1" "last_h2_at hs (length hs - 1) j"
        "\<exists>c \<in> set chs. contains_ci lower (h_text (hs ! j)) c"
        by auto
      from j(1) lt have "(hs @ [x]) ! j = hs ! j" by (simp add: nth_append)
      with j lt have "j \<in> {..length hs} \<and> j \<le> length hs - 1
          \<and> last_h2_at hs (length hs - 1) j
          \<and> (\<exists>c \<in> set chs. contains_ci lower (h_text ((hs @ [x]) ! j)) c)"
        by simp
      then show ?l by blast
    qed
    with ne False show ?thesis
      unfolding kept_by_chapter_def eq by simp
  qed
qed

lemma fh_foldl_kept:
  "foldl (fh_step lower (map lower chs)) (False, []) hs =
     (hs \<noteq> [] \<and> kept_by_chapter lower chs hs (length hs - 1),
      map (nth hs) (filter (kept_by_chapter lower chs hs) [0..<length hs]))"
proof (induction hs rule: rev_induct)
  case Nil
  then show ?case by simp
next
  case (snoc x hs)
  have m: "map (nth (hs @ [x])) (filter (kept_by_chapter lower chs (hs @ [x])) [0..<length hs])
      = map (nth hs) (filter (kept_by_chapter lower chs hs) [0..<length hs])"
  proof -
    have "filter (kept_by_chapter lower chs (hs @ [x])) [0..<length hs]
        = filter (kept_by_chapter lower chs hs) [0..<length hs]"
      by (rule filter_cong) (simp_all add: kept_by_chapter_append)
    then show ?thesis
      by (simp add: nth_append cong: map_cong)
  qed
  have "foldl (fh_step lower (map lower chs)) (False, []) (hs @ [x])
      = fh_step lower (map lower chs) (foldl (fh_step lower (map lower chs)) (False, []) hs) x"
    by simp
  also have "\<dots> = fh_step lower (map lower chs)
      (hs \<noteq> [] \<and> kept_by_chapter lower chs hs (length hs - 1),
       map (nth hs) (filter (kept_by_chapter lower chs hs) [0..<length hs])) x"
    by (simp only: snoc.IH)
  also have "\<dots> = (hs @ [x] \<noteq> [] \<and> kept_by_chapter lower chs (hs @ [x]) (length (hs @ [x]) - 1),
      map (nth (hs @ [x])) (filter (kept_by_chapter lower chs (hs @ [x])) [0..<length (hs @ [x])]))"
    unfolding fh_step_def
    by (simp add: Let_def any_lower kept_by_chapter_last m)
  finally show ?case .
qed

subsection \<open>C3: the chapter filter\<close>

text \<open>
  Claim C3. For a chapter list that is not empty, \<^const>\<open>filter_headings\<close> returns, in order,
  exactly the headings at the indices \<open>i\<close> for which some heading of level 2 at an index
  \<open>j \<le> i\<close>, with no heading of level 2 strictly between \<open>j\<close> and \<open>i\<close> or at \<open>i\<close> itself when
  \<open>j < i\<close>, has a text that contains one of the chapters without regard to case (the
  lower-cased chapter is a substring of the lower-cased text). A heading with no heading of
  level 2 at or before it is not kept. This holds whatever \<open>lower\<close> computes.
\<close>

theorem filter_headings_keeps_matching_chapters:
  assumes "chs \<noteq> []"
  shows "filter_headings lower hs (Some chs) =
           map (nth hs) (filter (kept_by_chapter lower chs hs) [0..<length hs])
         \<and> (\<forall>i. kept_by_chapter lower chs hs i \<longleftrightarrow>
               (\<exists>j\<le>i. h_level (hs ! j) = 2
                    \<and> (\<forall>k. j < k \<and> k \<le> i \<longrightarrow> h_level (hs ! k) \<noteq> 2)
                    \<and> (\<exists>c \<in> set chs. sublist (lower c) (lower (h_text (hs ! j))))))
         \<and> (\<forall>i. (\<forall>j\<le>i. h_level (hs ! j) \<noteq> 2) \<longrightarrow> \<not> kept_by_chapter lower chs hs i)"
proof -
  have t: "truthy (Some chs)"
    using assms by (simp add: truthy_def)
  have a: "filter_headings lower hs (Some chs) =
      map (nth hs) (filter (kept_by_chapter lower chs hs) [0..<length hs])"
    using t by (simp add: filter_headings_def Let_def fh_foldl_kept)
  have b: "kept_by_chapter lower chs hs i \<longleftrightarrow>
      (\<exists>j\<le>i. h_level (hs ! j) = 2
           \<and> (\<forall>k. j < k \<and> k \<le> i \<longrightarrow> h_level (hs ! k) \<noteq> 2)
           \<and> (\<exists>c \<in> set chs. sublist (lower c) (lower (h_text (hs ! j)))))" for i
    by (auto simp: kept_by_chapter_def last_h2_at_def contains_ci_def)
  have c: "(\<forall>j\<le>i. h_level (hs ! j) \<noteq> 2) \<longrightarrow> \<not> kept_by_chapter lower chs hs i" for i
    unfolding b by blast
  from a b c show ?thesis by blast
qed

theorem filter_headings_keeps_matching_chapters_witness:
  "[str ''INST''] \<noteq> []
   \<and> filter_headings ascii_lower example_headings (Some [str ''INST'']) =
       [\<lparr>h_level = 2, h_text = str ''Install'', h_anchor = str ''i'', h_url = str ''u#i''\<rparr>,
        \<lparr>h_level = 3, h_text = str ''Steps'', h_anchor = str ''s'', h_url = str ''u#s''\<rparr>]
   \<and> map (nth example_headings)
       (filter (kept_by_chapter ascii_lower [str ''INST''] example_headings) [0..<length example_headings]) =
       [\<lparr>h_level = 2, h_text = str ''Install'', h_anchor = str ''i'', h_url = str ''u#i''\<rparr>,
        \<lparr>h_level = 3, h_text = str ''Steps'', h_anchor = str ''s'', h_url = str ''u#s''\<rparr>]"
proof -
  have n: "[str ''INST''] \<noteq> []" by simp
  have a: "filter_headings ascii_lower example_headings (Some [str ''INST'']) =
       [\<lparr>h_level = 2, h_text = str ''Install'', h_anchor = str ''i'', h_url = str ''u#i''\<rparr>,
        \<lparr>h_level = 3, h_text = str ''Steps'', h_anchor = str ''s'', h_url = str ''u#s''\<rparr>]"
    by code_simp
  have b: "map (nth example_headings)
       (filter (kept_by_chapter ascii_lower [str ''INST''] example_headings) [0..<length example_headings]) =
       [\<lparr>h_level = 2, h_text = str ''Install'', h_anchor = str ''i'', h_url = str ''u#i''\<rparr>,
        \<lparr>h_level = 3, h_text = str ''Steps'', h_anchor = str ''s'', h_url = str ''u#s''\<rparr>]"
    using filter_headings_keeps_matching_chapters
      [OF n, where lower = ascii_lower and hs = example_headings, THEN conjunct1]
    by (simp only: a)
  from n a b show ?thesis by blast
qed

subsection \<open>C4: the guide filter\<close>

text \<open>
  Claim C4. \<^const>\<open>filter_guides\<close> returns the guides, in their order, whose category
  contains one of the category substrings without regard to case when a category list is
  given and not empty, and whose title contains one of the title substrings without regard
  to case when a title list is given and not empty. With neither list given (or both
  empty) the result is the input list. This holds whatever \<open>lower\<close> computes.
\<close>

theorem filter_guides_selects:
  "filter_guides lower gs cats tits =
     filter (\<lambda>g. (truthy cats \<longrightarrow> (\<exists>c \<in> set (the cats). contains_ci lower (g_category g) c))
              \<and> (truthy tits \<longrightarrow> (\<exists>t \<in> set (the tits). contains_ci lower (g_title g) t))) gs
   \<and> (\<not> truthy cats \<and> \<not> truthy tits \<longrightarrow> filter_guides lower gs cats tits = gs)
   \<and> (\<forall>s c. contains_ci lower s c \<longleftrightarrow> sublist (lower c) (lower s))"
proof -
  have "\<not> truthy cats \<and> \<not> truthy tits \<longrightarrow> filter_guides lower gs cats tits = gs"
    by (simp add: filter_guides_def)
  moreover have "\<forall>s c. contains_ci lower s c \<longleftrightarrow> sublist (lower c) (lower s)"
    by (simp add: contains_ci_def)
  ultimately show ?thesis
    using filter_guides_filter [of lower gs cats tits] by blast
qed

theorem filter_guides_selects_witness:
  "filter_guides ascii_lower example_guides (Some [str ''INST'']) (Some [str ''guide b'', str ''zzz'']) =
     [\<lparr>g_category = str ''Install'', g_title = str ''Guide B'', g_url = str ''u/b'',
       g_headings = Some
         [\<lparr>h_level = 6, h_text = str ''Note'', h_anchor = str ''n'', h_url = str ''u/b#n''\<rparr>]\<rparr>]
   \<and> filter_guides ascii_lower example_guides None (Some []) = example_guides"
proof -
  have r: "filter (\<lambda>g. (truthy (Some [str ''INST'']) \<longrightarrow>
                (\<exists>c \<in> set (the (Some [str ''INST''])). contains_ci ascii_lower (g_category g) c))
              \<and> (truthy (Some [str ''guide b'', str ''zzz'']) \<longrightarrow>
                (\<exists>t \<in> set (the (Some [str ''guide b'', str ''zzz''])). contains_ci ascii_lower (g_title g) t)))
        example_guides =
     [\<lparr>g_category = str ''Install'', g_title = str ''Guide B'', g_url = str ''u/b'',
       g_headings = Some
         [\<lparr>h_level = 6, h_text = str ''Note'', h_anchor = str ''n'', h_url = str ''u/b#n''\<rparr>]\<rparr>]"
    by code_simp
  have f: "\<not> truthy (None :: ustring list option) \<and> \<not> truthy (Some ([] :: ustring list))"
    by (simp add: truthy_def)
  have a: "filter_guides ascii_lower example_guides (Some [str ''INST'']) (Some [str ''guide b'', str ''zzz'']) =
     [\<lparr>g_category = str ''Install'', g_title = str ''Guide B'', g_url = str ''u/b'',
       g_headings = Some
         [\<lparr>h_level = 6, h_text = str ''Note'', h_anchor = str ''n'', h_url = str ''u/b#n''\<rparr>]\<rparr>]"
    using filter_guides_selects
      [of ascii_lower example_guides "Some [str ''INST'']" "Some [str ''guide b'', str ''zzz'']",
       THEN conjunct1]
    by (simp only: r)
  have b: "filter_guides ascii_lower example_guides None (Some []) = example_guides"
    using filter_guides_selects
      [of ascii_lower example_guides None "Some []", THEN conjunct2, THEN conjunct1] f
    by blast
  from a b show ?thesis by simp
qed

subsection \<open>C10: the filters return subsequences\<close>

text \<open>
  Claim C10. The results of \<^const>\<open>filter_guides\<close> and \<^const>\<open>filter_headings\<close> are
  subsequences of their inputs (elements of the input, in the same order, obtained by
  leaving elements out), and a filter argument that is \<open>None\<close> or the empty list leaves
  the input unchanged.
\<close>

theorem filters_return_subsequences:
  "subseq (filter_guides lower gs cats tits) gs
   \<and> subseq (filter_headings lower hs chs) hs
   \<and> (\<not> truthy cats \<and> \<not> truthy tits \<longrightarrow> filter_guides lower gs cats tits = gs)
   \<and> (\<not> truthy chs \<longrightarrow> filter_headings lower hs chs = hs)
   \<and> (\<forall>xs :: ustring list option. truthy xs \<longleftrightarrow> xs \<noteq> None \<and> xs \<noteq> Some [])"
proof -
  have a: "subseq (filter_guides lower gs cats tits) gs"
    by (simp add: filter_guides_filter)
  have b: "\<not> truthy cats \<and> \<not> truthy tits \<longrightarrow> filter_guides lower gs cats tits = gs"
    by (simp add: filter_guides_def)
  have c: "\<not> truthy chs \<longrightarrow> filter_headings lower hs chs = hs"
    by (simp add: filter_headings_def)
  have d: "\<forall>xs :: ustring list option. truthy xs \<longleftrightarrow> xs \<noteq> None \<and> xs \<noteq> Some []"
    by (simp add: truthy_def split: option.splits)
  from a filter_headings_subseq [of lower hs chs] b c d show ?thesis by blast
qed

theorem filters_return_subsequences_witness:
  "subseq (filter_guides ascii_lower example_guides (Some [str ''manage'']) None) example_guides
   \<and> subseq (filter_headings ascii_lower example_headings (Some [str ''INST''])) example_headings
   \<and> filter_guides ascii_lower example_guides None None = example_guides
   \<and> filter_headings ascii_lower example_headings (Some []) = example_headings
   \<and> filter_headings ascii_lower example_headings None = example_headings"
proof -
  have f: "\<not> truthy (None :: ustring list option)" "\<not> truthy (Some ([] :: ustring list))"
    by (simp_all add: truthy_def)
  note t1 = filters_return_subsequences
    [of ascii_lower example_guides "Some [str ''manage'']" None example_headings "Some [str ''INST'']"]
  note t2 = filters_return_subsequences
    [of ascii_lower example_guides None None example_headings "Some []"]
  note t3 = filters_return_subsequences
    [of ascii_lower example_guides None None example_headings None]
  from t1 have a: "subseq (filter_guides ascii_lower example_guides (Some [str ''manage'']) None) example_guides"
    and b: "subseq (filter_headings ascii_lower example_headings (Some [str ''INST''])) example_headings"
    by blast+
  from t2 f have c: "filter_guides ascii_lower example_guides None None = example_guides"
    and d: "filter_headings ascii_lower example_headings (Some []) = example_headings"
    by blast+
  from t3 f have e: "filter_headings ascii_lower example_headings None = example_headings"
    by blast
  from a b c d e show ?thesis by blast
qed

section \<open>Heading text cleanup\<close>

lemma rstrip_Nil: "rstrip [] = []"
  by (simp add: rstrip_def)

lemma rstrip_Cons:
  "rstrip (c # cs) = (if isspace c \<and> rstrip cs = [] then [] else c # rstrip cs)"
  by (simp add: rstrip_def dropWhile_append)

lemma rstrip_empty_iff: "rstrip cs = [] \<longleftrightarrow> (\<forall>c \<in> set cs. isspace c)"
  by (induction cs) (simp_all add: rstrip_Nil rstrip_Cons)

lemma split_ws_empty_iff: "split_ws [] cs = [] \<longleftrightarrow> (\<forall>c \<in> set cs. isspace c)"
proof (induction cs)
  case Nil
  then show ?case by simp
next
  case (Cons c cs)
  have "split_ws w cs \<noteq> []" if "w \<noteq> []" for w cs
    using that by (induction cs arbitrary: w) auto
  then show ?case using Cons by auto
qed

lemma join_Cons: "join sep (w # ws) = (if ws = [] then w else w @ sep @ join sep ws)"
  by (cases ws) simp_all

lemma join_split_ws:
  "(w \<noteq> [] \<longrightarrow> join (str '' '') (split_ws w cs) = w @ collapse_aux False (rstrip cs))
   \<and> join (str '' '') (split_ws [] cs) = collapse_aux True (rstrip cs)"
proof (induction cs arbitrary: w)
  case Nil
  then show ?case by (simp add: rstrip_Nil)
next
  case (Cons c cs)
  show ?case
  proof (cases "isspace c")
    case True
    have e: "split_ws [] cs = [] \<longleftrightarrow> rstrip cs = []"
      by (simp add: split_ws_empty_iff rstrip_empty_iff)
    show ?thesis
      using True Cons.IH [of "[]"] e
      by (auto simp: rstrip_Cons join_Cons str_space)
  next
    case False
    have "join (str '' '') (split_ws (w @ [c]) cs) = (w @ [c]) @ collapse_aux False (rstrip cs)"
      using Cons.IH [of "w @ [c]"] by simp
    moreover have "join (str '' '') (split_ws [c] cs) = [c] @ collapse_aux False (rstrip cs)"
      using Cons.IH [of "[c]"] by simp
    ultimately show ?thesis
      using False by (simp add: rstrip_Cons)
  qed
qed

lemma collapse_aux_True: "collapse_aux True s = collapse_aux False (dropWhile isspace s)"
  by (induction s) simp_all

lemma dropWhile_all_space: "\<forall>c \<in> set s. isspace c \<Longrightarrow> dropWhile isspace s = []"
  by simp

lemma dropWhile_rstrip: "dropWhile isspace (rstrip s) = rstrip (dropWhile isspace s)"
proof (induction s)
  case Nil
  then show ?case by (simp add: rstrip_Nil)
next
  case (Cons c s)
  show ?case
  proof (cases "isspace c \<and> rstrip s = []")
    case True
    then have "\<forall>c \<in> set s. isspace c"
      by (simp add: rstrip_empty_iff)
    then have "dropWhile isspace (c # s) = []"
      using True by simp
    then have "rstrip (dropWhile isspace (c # s)) = []"
      by (simp only: rstrip_Nil)
    moreover have "dropWhile isspace (rstrip (c # s)) = []"
      using True by (simp add: rstrip_Cons)
    ultimately show ?thesis by simp
  next
    case False
    with Cons show ?thesis by (auto simp: rstrip_Cons)
  qed
qed

lemma join_split_collapse: "join (str '' '') (str_split t) = collapse_runs (strip t)"
proof -
  have "join (str '' '') (str_split t) = collapse_aux True (rstrip t)"
    using join_split_ws [of "[]" t] by (simp add: str_split_def)
  also have "\<dots> = collapse_aux False (rstrip (dropWhile isspace t))"
    by (simp add: collapse_aux_True dropWhile_rstrip)
  finally show ?thesis
    by (simp add: collapse_runs_def strip_def lstrip_def)
qed

lemma no_lead_collapse_True: "no_lead (collapse_aux True s)"
  by (induction s) (simp_all add: no_lead_def)

lemma no_lead_take: "no_lead s \<Longrightarrow> no_lead (take n s)"
  by (cases s; cases n) (simp_all add: no_lead_def)

lemma no_lead_rstrip: "no_lead s \<Longrightarrow> no_lead (rstrip s)"
  by (cases s) (auto simp: no_lead_def rstrip_Cons rstrip_Nil)

lemma no_lead_lstrip: "no_lead s \<Longrightarrow> lstrip s = s"
  by (cases s) (simp_all add: no_lead_def lstrip_def)

lemma strip_suffix_remove:
  assumes "no_lead t" and "suf \<noteq> []"
  shows "strip_suffix t suf = remove_suffix t suf \<and> no_lead (strip_suffix t suf)"
proof (cases "suffix suf t")
  case True
  have n: "no_lead (take (length t - length suf) t)"
    by (rule no_lead_take [OF assms(1)])
  have "strip (take (length t - length suf) t) = rstrip (take (length t - length suf) t)"
    by (simp add: strip_def no_lead_lstrip [OF n])
  then show ?thesis
    using True assms(2) n
    by (simp add: strip_suffix_def remove_suffix_def slice_upto_neg_def no_lead_rstrip)
next
  case False
  then show ?thesis
    using assms(1) by (simp add: strip_suffix_def remove_suffix_def)
qed

lemma foldl_strip_suffix:
  "no_lead t \<Longrightarrow> [] \<notin> set sufs \<Longrightarrow> foldl strip_suffix t sufs = foldl remove_suffix t sufs"
proof (induction sufs arbitrary: t)
  case Nil
  then show ?case by simp
next
  case (Cons s sufs)
  then have s: "s \<noteq> []" and r: "[] \<notin> set sufs" by auto
  note st = strip_suffix_remove [OF Cons.prems(1) s]
  have "foldl strip_suffix t (s # sufs) = foldl strip_suffix (strip_suffix t s) sufs"
    by simp
  also have "\<dots> = foldl remove_suffix (strip_suffix t s) sufs"
    by (rule Cons.IH [OF st [THEN conjunct2] r])
  also have "\<dots> = foldl remove_suffix (remove_suffix t s) sufs"
    by (simp only: st [THEN conjunct1])
  finally show ?case by simp
qed

subsection \<open>C6: one pass over the boilerplate suffixes\<close>

text \<open>
  Claim C6. \<^const>\<open>clean_heading_text\<close> first removes the whitespace at both ends
  of the text and turns every run of whitespace that is left into one space; it then goes
  through the six boilerplate suffixes once, in their order, and whenever the text at hand
  ends with the suffix it removes the suffix and the whitespace before it. A suffix is
  tried once, so a text that ends with the same suffix twice keeps one.
\<close>

theorem clean_heading_text_single_pass:
  "clean_heading_text t =
     foldl remove_suffix (collapse_runs (strip t))
       [str ''Copy linkLink copied to clipboard!'', str ''Copy linkLink copied to clipboard'',
        str ''Copy link'', str ''Link copied'', str ''Copied!'', str '' to clipboard!'']"
proof -
  have n: "no_lead (join (str '' '') (str_split t))"
    using join_split_ws [of "[]" t] by (simp add: str_split_def no_lead_collapse_True)
  have e: "[] \<notin> set BOILERPLATE_SUFFIXES"
    by code_simp
  have "clean_heading_text t = foldl remove_suffix (join (str '' '') (str_split t)) BOILERPLATE_SUFFIXES"
    by (simp add: clean_heading_text_def Let_def foldl_strip_suffix [OF n e])
  then show ?thesis
    by (simp add: join_split_collapse BOILERPLATE_SUFFIXES_def)
qed

theorem clean_heading_text_single_pass_witness:
  "foldl remove_suffix
     (collapse_runs
        (strip (str ''  Install   the  product Copy linkLink copied to clipboard!'')))
     [str ''Copy linkLink copied to clipboard!'', str ''Copy linkLink copied to clipboard'',
      str ''Copy link'', str ''Link copied'', str ''Copied!'', str '' to clipboard!''] =
     str ''Install the product''
   \<and> foldl remove_suffix (collapse_runs (strip (str ''xCopy linkCopy link'')))
     [str ''Copy linkLink copied to clipboard!'', str ''Copy linkLink copied to clipboard'',
      str ''Copy link'', str ''Link copied'', str ''Copied!'', str '' to clipboard!''] =
     str ''xCopy link''
   \<and> foldl remove_suffix (collapse_runs (strip (str ''a'' @ [160, 8195] @ str ''b'')))
     [str ''Copy linkLink copied to clipboard!'', str ''Copy linkLink copied to clipboard'',
      str ''Copy link'', str ''Link copied'', str ''Copied!'', str '' to clipboard!''] =
     str ''a b''"
proof -
  have a: "clean_heading_text
      (str ''  Install   the  product Copy linkLink copied to clipboard!'')
      = str ''Install the product''"
    by code_simp
  have b: "clean_heading_text (str ''xCopy linkCopy link'') = str ''xCopy link''"
    by code_simp
  have c: "clean_heading_text (str ''a'' @ [160, 8195] @ str ''b'') = str ''a b''"
    by code_simp
  from a b c show ?thesis
    by (simp only: clean_heading_text_single_pass)
qed

text \<open>
  Claim C6 as it is written says that every run of whitespace becomes one space. A run at
  the start of the text does not: it is removed.
\<close>

theorem clean_heading_text_counterexample:
  "clean_heading_text (str '' a'') = (str ''a'') \<and> claimed_clean_heading_text (str '' a'') = str '' a''"
  by code_simp

section \<open>Fetching\<close>

subsection \<open>The landing page\<close>

lemma link_step_inv:
  "url_inv base urljoin st \<Longrightarrow> url_inv base urljoin (link_step urljoin base category st lnk)"
  unfolding url_inv_def link_step_def Let_def
  by (cases st) (auto split: if_splits)

lemma foldl_link_step_inv:
  "url_inv base urljoin st \<Longrightarrow>
   url_inv base urljoin (foldl (link_step urljoin base category) st links)"
  by (induction links arbitrary: st) (simp_all add: link_step_inv)

lemma h2_step_inv:
  "url_inv base urljoin st \<Longrightarrow> url_inv base urljoin (h2_step lower urljoin base st h2)"
  by (simp add: h2_step_def Let_def foldl_link_step_inv split: option.splits)

lemma foldl_h2_step_inv:
  "url_inv base urljoin st \<Longrightarrow> url_inv base urljoin (foldl (h2_step lower urljoin base) st h2s)"
  by (induction h2s arbitrary: st) (simp_all add: h2_step_inv)

lemma url_inv_init: "url_inv base urljoin ([], {})"
  by (simp add: url_inv_def)

lemma fetch_landing_page_inv:
  assumes "fetch_landing_page lower http_get find_all_h2 urljoin base_url = Inr guides"
  shows "\<exists>seen. url_inv (rstrip_chars (str ''/'') base_url) urljoin (guides, seen)"
proof (cases "http_get (rstrip_chars (str ''/'') base_url)")
  case (Inl e)
  with assms show ?thesis by (simp add: fetch_landing_page_def)
next
  case (Inr response)
  define st where "st = foldl (h2_step lower urljoin (rstrip_chars (str ''/'') base_url)) ([], {})
      (find_all_h2 (resp_text response))"
  have inv: "url_inv (rstrip_chars (str ''/'') base_url) urljoin st"
    unfolding st_def by (rule foldl_h2_step_inv [OF url_inv_init])
  from assms Inr have "guides = fst st"
    by (simp add: fetch_landing_page_def st_def split: sum.splits)
  then have "st = (guides, snd st)" by simp
  with inv show ?thesis by metis
qed

lemma url_at_most_once:
  assumes "distinct (map g_url guides)"
  shows "length (filter (\<lambda>g. g_url g = u) guides) \<le> 1"
proof -
  have "length (filter (\<lambda>g. g_url g = u) guides)
      = length (filter (\<lambda>x. x = u) (map g_url guides))"
    by (simp add: filter_map comp_def)
  also have "\<dots> = card ({x. x = u} \<inter> set (map g_url guides))"
    by (rule distinct_length_filter [OF assms])
  also have "\<dots> \<le> card {u}"
    by (rule card_mono) auto
  finally show ?thesis by simp
qed

subsection \<open>No url twice\<close>

text \<open>
  When \<^const>\<open>fetch_landing_page\<close> returns a guide list, no two of its entries have the same
  url, so a url has one entry at most, and every url is a joined link in which
  \<^verbatim>\<open>/html/\<close> has been replaced by \<^verbatim>\<open>/html-single/\<close>.
\<close>

lemma landing_page_urls_distinct:
  assumes "fetch_landing_page lower http_get find_all_h2 urljoin base_url = Inr guides"
  shows "distinct (map g_url guides)
         \<and> (\<forall>u. length (filter (\<lambda>g. g_url g = u) guides) \<le> 1)
         \<and> (\<forall>g \<in> set guides. \<exists>href.
               g_url g = replace (str ''/html/'') (str ''/html-single/'')
                           (urljoin (rstrip_chars (str ''/'') base_url) href))"
proof -
  obtain seen where "url_inv (rstrip_chars (str ''/'') base_url) urljoin (guides, seen)"
    using fetch_landing_page_inv [OF assms] by blast
  then have d: "distinct (map g_url guides)"
    and f: "\<forall>g \<in> set guides. \<exists>href.
               g_url g = replace (str ''/html/'') (str ''/html-single/'')
                           (urljoin (rstrip_chars (str ''/'') base_url) href)"
    unfolding url_inv_def to_html_single_def by simp_all
  from d f url_at_most_once [OF d] show ?thesis by blast
qed

text \<open>The landing page of the example: two of its links lead to guide 1.\<close>

lemma example_landing_guides:
  "fetch_landing_page ascii_lower example_http (\<lambda>t. example_landing) example_urljoin
     (str ''https://d//'') = Inr example_found"
  by code_simp

subsection \<open>C5: a link without text uses the url up\<close>

text \<open>
  Claim C5. Two different links that are rewritten to the same url are to give a single
  guide entry. They do when the first of them has a text. When the first has none, the
  url is put into \<^verbatim>\<open>seen_urls\<close> before the title is looked at; the second link, which
  has the title, is then skipped as seen, and the guide has no entry at all.
\<close>

theorem landing_page_untitled_link_loses_guide:
  "str ''/documentation/p/html/g1'' \<noteq> str ''/documentation/p/html-single/g1''
   \<and> to_html_single (example_urljoin (str ''https://d'') (str ''/documentation/p/html/g1'')) =
       to_html_single
         (example_urljoin (str ''https://d'') (str ''/documentation/p/html-single/g1''))
   \<and> fetch_landing_page ascii_lower example_http (\<lambda>t. example_landing_titled) example_urljoin
       (str ''https://d'') =
       Inr [\<lparr>g_category = str ''Install'', g_title = str ''Guide 1'',
             g_url = str ''https://d/documentation/p/html-single/g1'', g_headings = None\<rparr>]
   \<and> fetch_landing_page ascii_lower example_http (\<lambda>t. example_landing_untitled) example_urljoin
       (str ''https://d'') = Inr []"
  by code_simp

subsection \<open>Guide pages and the crawl loop\<close>

lemma fetch_fails_result:
  "fetch_fails http_get url \<Longrightarrow>
   \<exists>msg. fetch_guide_headings lower http_get parse url = ([(str ''  Failed to fetch: '') @ msg], [])"
  by (auto simp: fetch_fails_def fetch_guide_headings_def raise_for_status_def
        split: sum.splits error.splits)

lemma filter_headings_Nil: "filter_headings lower [] chapter = []"
  by (simp add: filter_headings_def)

lemma crawl_step_one:
  "snd (crawl_step lower http_get parse chapter (lg, acc) g) = acc @ [crawl_one lower http_get parse chapter g]"
  by (simp add: crawl_step_def crawl_one_def Let_def)

lemma foldl_crawl_step:
  "snd (foldl (crawl_step lower http_get parse chapter) st gs) =
     snd st @ map (crawl_one lower http_get parse chapter) gs"
proof (induction gs arbitrary: st)
  case Nil
  then show ?case by simp
next
  case (Cons g gs)
  show ?case
    using crawl_step_one [of lower http_get parse "chapter" "fst st" "snd st" g]
    by (simp add: Cons.IH)
qed

lemma crawl_guides_map:
  "snd (crawl_guides lower http_get parse chapter gs) = map (crawl_one lower http_get parse chapter) gs"
  by (simp add: crawl_guides_def foldl_crawl_step)

lemma crawl_one_failed:
  "fetch_fails http_get (g_url g) \<Longrightarrow>
   crawl_one lower http_get parse chapter g = g\<lparr>g_headings := Some []\<rparr>"
  using fetch_fails_result [of http_get "g_url g" lower parse]
  by (auto simp: crawl_one_def filter_headings_Nil)

lemma row_offset_Suc:
  "i < length gs \<Longrightarrow> row_offset gs (Suc i) = row_offset gs i + 2 + length (content_headings (gs ! i))"
  by (simp add: row_offset_def take_Suc_conv_app_nth)

subsection \<open>C7: a failed fetch is logged and skipped\<close>

text \<open>
  Claim C7. When the request for a guide's url fails, \<^const>\<open>fetch_guide_headings\<close> returns the
  empty heading list and one line on the standard error stream, and raises nothing. The
  crawl loop goes through every guide, each handled on its own, and the guide that failed
  gets the empty heading list; in the rows of \<^const>\<open>build_csv_rows\<close> it contributes its title
  row and a row of nine empty cells, the next guide starting two rows after it.
\<close>

theorem failed_fetch_is_skipped:
  assumes "i < length gs" and "fetch_fails http_get (g_url (gs ! i))"
  shows "(\<exists>msg. fetch_guide_headings lower http_get parse (g_url (gs ! i)) =
                  ([(str ''  Failed to fetch: '') @ msg], []))
         \<and> (let crawled = snd (crawl_guides lower http_get parse chapter gs);
                 rows = build_csv_rows crawled;
                 k = row_offset crawled i
             in crawled = map (crawl_one lower http_get parse chapter) gs
                \<and> crawled ! i = (gs ! i)\<lparr>g_headings := Some []\<rparr>
                \<and> rows ! k = title_row (prev_cat None crawled i) (crawled ! i)
                \<and> rows ! (k + 1) = replicate 9 []
                \<and> row_offset crawled (Suc i) = k + 2)"
proof -
  define crawled where "crawled = snd (crawl_guides lower http_get parse chapter gs)"
  have m: "crawled = map (crawl_one lower http_get parse chapter) gs"
    by (simp add: crawled_def crawl_guides_map)
  have len: "i < length crawled"
    using assms(1) by (simp add: m)
  have ci: "crawled ! i = (gs ! i)\<lparr>g_headings := Some []\<rparr>"
    using assms by (simp add: m crawl_one_failed)
  have ch: "content_headings (crawled ! i) = []"
    by (simp add: ci content_headings_def)
  have r0: "build_csv_rows crawled ! row_offset crawled i
      = title_row (prev_cat None crawled i) (crawled ! i)"
    using nth_rows_from [OF len, of 0 None]
    by (simp add: build_csv_rows_rows_from guide_rows_def)
  have r1: "build_csv_rows crawled ! (row_offset crawled i + 1) = replicate 9 []"
    using nth_rows_from [OF len, of 1 None]
    by (simp add: build_csv_rows_rows_from guide_rows_def ch empty_row_replicate)
  have nx: "row_offset crawled (Suc i) = row_offset crawled i + 2"
    using row_offset_Suc [OF len] by (simp add: ch)
  show ?thesis
    unfolding Let_def crawled_def [symmetric]
    using fetch_fails_result [OF assms(2), of lower parse] m ci r0 r1 nx by blast
qed

theorem failed_fetch_is_skipped_witness:
  "(0::nat) < length example_found
   \<and> fetch_fails example_http (g_url (example_found ! 0))
   \<and> fetch_guide_headings ascii_lower example_http example_soup (g_url (example_found ! 0)) =
       ([str ''  Failed to fetch: HTTPError''], [])
   \<and> snd (crawl_guides ascii_lower example_http example_soup None example_found) ! 0 =
       (example_found ! 0)\<lparr>g_headings := Some []\<rparr>
   \<and> build_csv_rows (snd (crawl_guides ascii_lower example_http example_soup None example_found)) !
       (row_offset (snd (crawl_guides ascii_lower example_http example_soup None example_found)) 0 + 1) =
       replicate 9 []
   \<and> g_headings (snd (crawl_guides ascii_lower example_http example_soup None example_found) ! 1) =
       Some [\<lparr>h_level = 1, h_text = str ''Guide 2'', h_anchor = [],
               h_url = str ''https://d/documentation/p/html-single/g2''\<rparr>,
             \<lparr>h_level = 2, h_text = str ''Intro'', h_anchor = str ''intro'',
               h_url = str ''https://d/documentation/p/html-single/g2#intro''\<rparr>]"
proof -
  have a: "(0::nat) < length example_found"
    by (simp add: example_found_def)
  have b: "fetch_fails example_http (g_url (example_found ! 0))"
    by code_simp
  have c: "fetch_guide_headings ascii_lower example_http example_soup (g_url (example_found ! 0)) =
       ([str ''  Failed to fetch: HTTPError''], [])"
    by code_simp
  have d: "g_headings (snd (crawl_guides ascii_lower example_http example_soup None example_found) ! 1) =
       Some [\<lparr>h_level = 1, h_text = str ''Guide 2'', h_anchor = [],
               h_url = str ''https://d/documentation/p/html-single/g2''\<rparr>,
             \<lparr>h_level = 2, h_text = str ''Intro'', h_anchor = str ''intro'',
               h_url = str ''https://d/documentation/p/html-single/g2#intro''\<rparr>]"
    by code_simp
  note t = failed_fetch_is_skipped
    [OF a b, of ascii_lower example_soup None, THEN conjunct2, unfolded Let_def]
  from t have e: "snd (crawl_guides ascii_lower example_http example_soup None example_found) ! 0 =
       (example_found ! 0)\<lparr>g_headings := Some []\<rparr>"
    by blast
  from t have f: "build_csv_rows (snd (crawl_guides ascii_lower example_http example_soup None example_found)) !
       (row_offset (snd (crawl_guides ascii_lower example_http example_soup None example_found)) 0 + 1) =
       replicate 9 []"
    by blast
  from a b c d e f show ?thesis by blast
qed

end
